theory Spec2Isabelle
  imports Complex_Main "HOL-Library.Log_Nat" "HOL-Library.Multiset"
    "HOL-Library.Char_ord" "HOL-Library.List_Lexorder"
begin

section \<open>Python numbers\<close>

text \<open>
  \<^verbatim>\<open>format_number\<close> takes \<^verbatim>\<open>value: int | float\<close>. A Python \<^verbatim>\<open>int\<close> is an
  unbounded integer; a Python \<^verbatim>\<open>float\<close> is an IEEE-754 binary64 number, modelled by the
  rational it denotes. The 53-bit precision of binary64 is modelled (\<open>to_double\<close> rounds
  to nearest, ties to even); its exponent range is not: there is no overflow, no
  subnormal number, no infinity, no NaN and no negative zero in the model.
\<close>

datatype pynum = PyInt int | PyFloat rat

fun val :: "pynum \<Rightarrow> rat" where
  "val (PyInt i) = of_int i"
| "val (PyFloat r) = r"

definition round_half_even :: "rat \<Rightarrow> int" where
  "round_half_even x =
     (let f = \<lfloor>x\<rfloor>; d = x - of_int f
      in if d < 1 / 2 then f else if 1 / 2 < d then f + 1
         else if even f then f else f + 1)"

text \<open>The binary exponent of a positive rational: \<open>2 powi expo x \<le> x < 2 powi (expo x + 1)\<close>.\<close>

definition expo :: "rat \<Rightarrow> int" where
  "expo x =
     (let (p, q) = quotient_of x; d = bitlen p - bitlen q
      in if 2 powi d \<le> x then d else d - 1)"

definition ulp :: "rat \<Rightarrow> rat" where
  "ulp x = 2 powi (expo \<bar>x\<bar> - 52)"

text \<open>The binary64 number nearest to a rational (round to nearest, ties to even).\<close>

definition to_double :: "rat \<Rightarrow> rat" where
  "to_double x =
     (if x = 0 then 0
      else sgn x * of_int (round_half_even (\<bar>x\<bar> / ulp x)) * ulp x)"

definition is_double :: "rat \<Rightarrow> bool" where
  "is_double x \<longleftrightarrow> to_double x = x"

text \<open>
  Python's \<^verbatim>\<open>value / k\<close> for an \<^verbatim>\<open>int\<close> or \<^verbatim>\<open>float\<close> value and an \<^verbatim>\<open>int\<close> k: the
  correctly rounded quotient, a \<^verbatim>\<open>float\<close>.
\<close>

definition truediv :: "pynum \<Rightarrow> int \<Rightarrow> pynum" where
  "truediv value k = PyFloat (to_double (val value / of_int k))"

text \<open>Python's \<^verbatim>\<open>float(value)\<close>.\<close>

fun to_float :: "pynum \<Rightarrow> rat" where
  "to_float (PyInt i) = to_double (of_int i)"
| "to_float (PyFloat r) = r"

definition digit :: "int \<Rightarrow> char" where
  "digit d = ''0123456789'' ! nat d"

text \<open>The decimal digits of a non-negative integer, most significant first.\<close>

function digits :: "int \<Rightarrow> string" where
  "digits n = (if n < 10 then [digit n] else digits (n div 10) @ [digit (n mod 10)])"
  by pat_completeness auto
termination
  by (relation "measure nat") auto

text \<open>
  The format specification \<^verbatim>\<open>{value:.2f}\<close>: the value is converted to \<^verbatim>\<open>float\<close>, its
  exact value is rounded to two decimals (ties to even), and printed with a sign only
  when negative.
\<close>

definition format_2f :: "pynum \<Rightarrow> string" where
  "format_2f value =
     (let x = to_float value; q = round_half_even (\<bar>x\<bar> * 100)
      in (if x < 0 then ''-'' else '''') @ digits (q div 100) @ ''.''
         @ [digit (q mod 100 div 10), digit (q mod 10)])"

section \<open>The formatter\<close>

text \<open>
  \<^verbatim>\<open>
  def format_number(value: int | float, prefix="") -> str:
      for unit in ["", "mil"]:
          if value < 1000:
              return f"{prefix} {value:.2f} {unit}"
          value /= 1000
      return f"{prefix} {value:.2f} million"
  \<close>
  The loop over the unit list is a recursion on that list; the statement after the loop
  is the case of the empty list.
\<close>

fun format_number_loop :: "string list \<Rightarrow> pynum \<Rightarrow> string \<Rightarrow> string" where
  "format_number_loop [] value prefix = prefix @ '' '' @ format_2f value @ '' million''"
| "format_number_loop (unit # units) value prefix =
     (if val value < 1000 then prefix @ '' '' @ format_2f value @ '' '' @ unit
      else format_number_loop units (truediv value 1000) prefix)"

definition format_number :: "pynum \<Rightarrow> string \<Rightarrow> string" where
  "format_number value prefix = format_number_loop ['''', ''mil''] value prefix"

text \<open>
  A \<^verbatim>\<open>float\<close> argument is well formed when its value is a binary64 number; every
  \<^verbatim>\<open>int\<close> is.
\<close>

fun representable :: "pynum \<Rightarrow> bool" where
  "representable (PyInt i) = True"
| "representable (PyFloat r) = is_double r"

section \<open>Tables\<close>

text \<open>
  A row of the remote data set, with the columns the script reads:
  \<^verbatim>\<open>Data da Compra\<close> (after line 77, a timestamp at midnight), the price (the column
  \<open>Preco\<close> below), \<^verbatim>\<open>Categoria do Produto\<close>, \<^verbatim>\<open>Vendedor\<close>, \<^verbatim>\<open>Local da compra\<close>,
  \<^verbatim>\<open>lat\<close> and \<^verbatim>\<open>lon\<close>.
  A price is a JSON number, modelled by the rational it denotes; sums of prices are
  exact (the rounding of the library's binary64 accumulation is not modelled).
\<close>

record timestamp =
  year :: int
  month :: int
  day :: int

record sale =
  data_da_compra :: timestamp
  preco :: rat
  categoria_do_produto :: string
  vendedor :: string
  local_da_compra :: string
  lat :: rat
  lon :: rat

text \<open>
  A \<^verbatim>\<open>pd.DataFrame\<close>: its column labels and its rows, in order.
  \<^verbatim>\<open>pd.DataFrame()\<close> has no column and no row.
\<close>

record dataframe =
  columns :: "string list"
  rows :: "sale list"

definition DataFrame :: dataframe where
  "DataFrame = \<lparr>columns = [], rows = []\<rparr>"

text \<open>
  The label of the price column, in UTF-8: \<^verbatim>\<open>Pre\<close>, a c with a cedilla (the bytes C3 A7)
  and \<^verbatim>\<open>o\<close>.
\<close>

definition Preco :: string where
  "Preco = ''Pre'' @ [CHR 0xC3, CHR 0xA7] @ ''o''"

definition schema :: "string list" where
  "schema = [''Data da Compra'', Preco, ''Categoria do Produto'', ''Vendedor'',
     ''Local da compra'', ''lat'', ''lon'']"

datatype exn =
    KeyError string
  | RequestException string
  | OtherException string

text \<open>
  \<^verbatim>\<open>datas[c]\<close>, \<^verbatim>\<open>groupby(c)\<close>, \<^verbatim>\<open>set_index(c)\<close> and \<^verbatim>\<open>drop_duplicates(subset=c)\<close>
  raise \<^verbatim>\<open>KeyError\<close> when the frame has no column \<^verbatim>\<open>c\<close>; otherwise the script goes on.
\<close>

definition need :: "dataframe \<Rightarrow> string \<Rightarrow> exn + 'a \<Rightarrow> exn + 'a" where
  "need df c continue = (if c \<in> set (columns df) then continue else Inl (KeyError c))"

section \<open>The fetcher\<close>

text \<open>
  The network is the environment of \<^verbatim>\<open>fetch_data\<close>: \<^verbatim>\<open>requests.get\<close> is a parameter,
  which either raises or returns a response. Of a response the script uses the status
  (in \<^verbatim>\<open>raise_for_status\<close>, which raises \<^verbatim>\<open>HTTPError\<close>, a \<^verbatim>\<open>RequestException\<close>, for
  a status from 400 to 599) and the frame that \<^verbatim>\<open>pd.DataFrame.from_dict(response.json())\<close>
  builds, or the exception that this expression raises.
\<close>

record params =
  regiao :: string
  ano :: int

record response =
  status_code :: int
  reason :: string
  url :: string
  from_dict_json :: "exn + dataframe"

definition URL :: string where
  "URL = ''https://labdados.com/produtos''"

definition raise_for_status :: "response \<Rightarrow> exn + unit" where
  "raise_for_status r =
     (if 400 \<le> status_code r \<and> status_code r < 500
        then Inl (RequestException
          (digits (status_code r) @ '' Client Error: '' @ reason r @ '' for url: '' @ url r))
      else if 500 \<le> status_code r \<and> status_code r < 600
        then Inl (RequestException
          (digits (status_code r) @ '' Server Error: '' @ reason r @ '' for url: '' @ url r))
      else Inr ())"

text \<open>
  \<^verbatim>\<open>
  def fetch_data(params: dict) -> pd.DataFrame:
      try:
          response = requests.get(URL, params=params)
          response.raise_for_status()  # Raise an error for bad responses (4xx or 5xx)
          return pd.DataFrame.from_dict(response.json())
      except requests.exceptions.RequestException as e:
          st.error(f"Error fetching data: {e}")
          return pd.DataFrame()  # Return an empty DataFrame in case of an error
  \<close>
  The result is the list of messages given to \<^verbatim>\<open>st.error\<close> and either the exception that
  reaches the caller or the frame returned.
\<close>

definition fetch_data ::
  "(string \<Rightarrow> params \<Rightarrow> exn + response) \<Rightarrow> params \<Rightarrow> string list \<times> (exn + dataframe)" where
  "fetch_data requests_get params =
     (let try =
        (case requests_get URL params of
           Inl e \<Rightarrow> Inl e
         | Inr response \<Rightarrow>
             (case raise_for_status response of
                Inl e \<Rightarrow> Inl e
              | Inr _ \<Rightarrow> from_dict_json response))
      in case try of
           Inr df \<Rightarrow> ([], Inr df)
         | Inl (RequestException e) \<Rightarrow> ([''Error fetching data: '' @ e], Inr DataFrame)
         | Inl e \<Rightarrow> ([], Inl e))"

section \<open>The filter stage\<close>

text \<open>
  \<^verbatim>\<open>
  if seller_filter:
      datas = datas[datas["Vendedor"].isin(seller_filter)]
  \<close>
  \<^verbatim>\<open>seller_filter\<close> is the list that the multiselect returns; an empty list is false.
\<close>

definition apply_seller_filter :: "string list \<Rightarrow> sale list \<Rightarrow> sale list" where
  "apply_seller_filter seller_filter datas =
     (if seller_filter \<noteq> [] then filter (\<lambda>r. vendedor r \<in> set seller_filter) datas
      else datas)"

section \<open>The aggregator\<close>

text \<open>
  \<^verbatim>\<open>df.groupby(key)[...].agg()\<close>: one row per key that occurs, in ascending order of
  the keys, with the aggregate of the rows that have this key.
\<close>

definition groupby :: "('r \<Rightarrow> 'k::linorder) \<Rightarrow> ('r list \<Rightarrow> 'v) \<Rightarrow> 'r list \<Rightarrow> ('k \<times> 'v) list" where
  "groupby key agg df =
     map (\<lambda>k. (k, agg (filter (\<lambda>r. key r = k) df))) (sort (remdups (map key df)))"

definition sum_preco :: "sale list \<Rightarrow> rat" where
  "sum_preco df = sum_list (map preco df)"

definition count_preco :: "sale list \<Rightarrow> nat" where
  "count_preco df = length df"

text \<open>
  \<^verbatim>\<open>df.set_index("Data da Compra").groupby(pd.Grouper(freq="M"))\<close>: one bin per calendar
  month from the month of the earliest row to the month of the latest, the months without
  a row included (their sum and their count are 0); the label of a bin is the last day of
  its month.
\<close>

definition month_index :: "timestamp \<Rightarrow> int" where
  "month_index t = year t * 12 + (month t - 1)"

definition leap_year :: "int \<Rightarrow> bool" where
  "leap_year y \<longleftrightarrow> y mod 4 = 0 \<and> (y mod 100 \<noteq> 0 \<or> y mod 400 = 0)"

definition days_in_month :: "int \<Rightarrow> int \<Rightarrow> int" where
  "days_in_month y m =
     (if m = 2 then (if leap_year y then 29 else 28)
      else if m \<in> {4, 6, 9, 11} then 30 else 31)"

definition month_end :: "int \<Rightarrow> timestamp" where
  "month_end i =
     \<lparr>year = i div 12, month = i mod 12 + 1, day = days_in_month (i div 12) (i mod 12 + 1)\<rparr>"

definition groupby_month :: "(sale list \<Rightarrow> 'v) \<Rightarrow> sale list \<Rightarrow> (timestamp \<times> 'v) list" where
  "groupby_month agg df =
     (if df = [] then []
      else map (\<lambda>i. (month_end i, agg (filter (\<lambda>r. month_index (data_da_compra r) = i) df)))
             [Min (set (map (month_index \<circ> data_da_compra) df)) ..
              Max (set (map (month_index \<circ> data_da_compra) df))])"

definition month_name :: "timestamp \<Rightarrow> string" where
  "month_name t =
     [''January'', ''February'', ''March'', ''April'', ''May'', ''June'', ''July'',
      ''August'', ''September'', ''October'', ''November'', ''December''] ! nat (month t - 1)"

text \<open>
  \<^verbatim>\<open>df.drop_duplicates(subset=key)\<close> keeps the first row of each key, in the order of
  the frame.
\<close>

fun drop_duplicates_seen :: "('r \<Rightarrow> 'k) \<Rightarrow> 'k list \<Rightarrow> 'r list \<Rightarrow> 'r list" where
  "drop_duplicates_seen key seen [] = []"
| "drop_duplicates_seen key seen (r # rs) =
     (if key r \<in> set seen then drop_duplicates_seen key seen rs
      else r # drop_duplicates_seen key (key r # seen) rs)"

definition drop_duplicates :: "('r \<Rightarrow> 'k) \<Rightarrow> 'r list \<Rightarrow> 'r list" where
  "drop_duplicates key df = drop_duplicates_seen key [] df"

text \<open>
  \<^verbatim>\<open>left.merge(right, left_on=key, right_index=True)\<close>, an inner join: the rows of
  \<^verbatim>\<open>left\<close> in their order, each with the value of every row of \<^verbatim>\<open>right\<close> whose index is
  its key.
\<close>

definition merge :: "('r \<Rightarrow> 'k) \<Rightarrow> 'r list \<Rightarrow> ('k \<times> 'v) list \<Rightarrow> ('r \<times> 'v) list" where
  "merge left_on left right =
     concat (map (\<lambda>r. map (\<lambda>(k, v). (r, v)) (filter (\<lambda>(k, v). k = left_on r) right)) left)"

text \<open>
  \<^verbatim>\<open>df.sort_values(by, ascending=False)\<close> computes a permutation of the row positions
  from the column (\<^verbatim>\<open>nargsort\<close>) and takes the rows in that order. The script does not
  pass \<^verbatim>\<open>kind\<close>, so the algorithm is the library's default, \<^verbatim>\<open>quicksort\<close>, which is not
  stable. The permutation is a parameter of the model; \<open>descending_argsort\<close> is what the
  library promises of it: a permutation of the positions that puts the column in
  descending order.
\<close>

type_synonym argsort = "rat list \<Rightarrow> nat list"

definition descending_argsort :: "argsort \<Rightarrow> bool" where
  "descending_argsort argsort \<longleftrightarrow>
     (\<forall>column. mset (argsort column) = mset [0..<length column] \<and>
        sorted_wrt (\<ge>) (map (\<lambda>i. column ! i) (argsort column)))"

definition sort_values :: "argsort \<Rightarrow> ('r \<Rightarrow> rat) \<Rightarrow> 'r list \<Rightarrow> 'r list" where
  "sort_values argsort by df = map (\<lambda>i. df ! i) (argsort (map by df))"

text \<open>
  Two algorithms that keep this promise: a stable one (rows with equal values stay in
  their order), and one that reverses the order of rows with equal values.
\<close>

definition stable_argsort :: argsort where
  "stable_argsort column = sort_key (\<lambda>i. - (column ! i)) [0..<length column]"


text \<open>\<^verbatim>\<open>df.head(n)\<close>\<close>

definition head :: "nat \<Rightarrow> 'r list \<Rightarrow> 'r list" where
  "head n df = take n df"

text \<open>The tables of lines 85 to 130, as functions of the rows of \<^verbatim>\<open>datas\<close>.\<close>

definition monthly_income :: "sale list \<Rightarrow> (timestamp \<times> rat \<times> int \<times> string) list" where
  "monthly_income datas =
     map (\<lambda>(t, p). (t, p, year t, month_name t)) (groupby_month sum_preco datas)"

definition income_by_category :: "argsort \<Rightarrow> sale list \<Rightarrow> (string \<times> rat) list" where
  "income_by_category argsort datas =
     sort_values argsort snd (groupby categoria_do_produto sum_preco datas)"

definition income_of_the_states :: "argsort \<Rightarrow> sale list \<Rightarrow> ((string \<times> rat \<times> rat) \<times> rat) list" where
  "income_of_the_states argsort datas =
     sort_values argsort snd
       (merge fst
          (map (\<lambda>r. (local_da_compra r, lat r, lon r)) (drop_duplicates local_da_compra datas))
          (groupby local_da_compra sum_preco datas))"

definition vendas_estados :: "argsort \<Rightarrow> sale list \<Rightarrow> ((string \<times> rat \<times> rat) \<times> nat) list" where
  "vendas_estados argsort datas =
     sort_values argsort (\<lambda>row. of_nat (snd row))
       (merge fst
          (map (\<lambda>r. (local_da_compra r, lat r, lon r)) (drop_duplicates local_da_compra datas))
          (groupby local_da_compra count_preco datas))"

definition vendas_mensal :: "sale list \<Rightarrow> (timestamp \<times> nat \<times> int \<times> string) list" where
  "vendas_mensal datas =
     map (\<lambda>(t, n). (t, n, year t, month_name t)) (groupby_month count_preco datas)"

definition vendas_categorias :: "argsort \<Rightarrow> sale list \<Rightarrow> (string \<times> nat) list" where
  "vendas_categorias argsort datas =
     sort_values argsort (\<lambda>row. of_nat (snd row)) (groupby categoria_do_produto count_preco datas)"

definition vendedores :: "sale list \<Rightarrow> (string \<times> rat \<times> nat) list" where
  "vendedores datas = groupby vendedor (\<lambda>g. (sum_preco g, count_preco g)) datas"

text \<open>
  The frames behind the two charts of the third tab:
  \<^verbatim>\<open>vendedores[["sum"]].sort_values("sum", ascending=False).head(qtd_vendedores)\<close> and the
  same with \<^verbatim>\<open>"count"\<close>.
\<close>

definition receita_vendedores :: "argsort \<Rightarrow> nat \<Rightarrow> sale list \<Rightarrow> (string \<times> rat) list" where
  "receita_vendedores argsort qtd_vendedores datas =
     head qtd_vendedores
       (sort_values argsort snd (map (\<lambda>(v, s, c). (v, s)) (vendedores datas)))"

definition vendas_vendedores :: "argsort \<Rightarrow> nat \<Rightarrow> sale list \<Rightarrow> (string \<times> nat) list" where
  "vendas_vendedores argsort qtd_vendedores datas =
     head qtd_vendedores
       (sort_values argsort (\<lambda>row. of_nat (snd row)) (map (\<lambda>(v, s, c). (v, c)) (vendedores datas)))"

section \<open>The script\<close>

text \<open>
  What the script computes from line 76 on, the charts left out: the query, the selected
  sellers and the number of sellers come from the sidebar and the third tab. The float
  that the sum of the price column yields (line 219) is modelled as the double nearest to
  the exact sum.
\<close>

record tables =
  t_monthly_income :: "(timestamp \<times> rat \<times> int \<times> string) list"
  t_income_by_category :: "(string \<times> rat) list"
  t_income_of_the_states :: "((string \<times> rat \<times> rat) \<times> rat) list"
  t_vendas_estados :: "((string \<times> rat \<times> rat) \<times> nat) list"
  t_vendas_mensal :: "(timestamp \<times> nat \<times> int \<times> string) list"
  t_vendas_categorias :: "(string \<times> nat) list"
  t_vendedores :: "(string \<times> rat \<times> nat) list"
  t_receita_vendedores :: "(string \<times> rat) list"
  t_vendas_vendedores :: "(string \<times> nat) list"
  metric_income :: string
  metric_sales_quantity :: string

definition aggregate :: "argsort \<Rightarrow> nat \<Rightarrow> sale list \<Rightarrow> tables" where
  "aggregate argsort qtd_vendedores datas =
     \<lparr>t_monthly_income = monthly_income datas,
      t_income_by_category = income_by_category argsort datas,
      t_income_of_the_states = income_of_the_states argsort datas,
      t_vendas_estados = vendas_estados argsort datas,
      t_vendas_mensal = vendas_mensal datas,
      t_vendas_categorias = vendas_categorias argsort datas,
      t_vendedores = vendedores datas,
      t_receita_vendedores = receita_vendedores argsort qtd_vendedores datas,
      t_vendas_vendedores = vendas_vendedores argsort qtd_vendedores datas,
      metric_income = format_number (PyFloat (to_double (sum_preco datas))) ''R$'',
      metric_sales_quantity = format_number (PyInt (int (length datas))) ''''\<rparr>"

definition dashboard ::
  "argsort \<Rightarrow> (string \<Rightarrow> params \<Rightarrow> exn + response) \<Rightarrow> params \<Rightarrow> string list \<Rightarrow> nat
     \<Rightarrow> string list \<times> (exn + tables)" where
  "dashboard argsort requests_get query_string seller_filter qtd_vendedores =
     (let (st_error, fetched) = fetch_data requests_get query_string
      in (st_error,
          (case fetched of
             Inl e \<Rightarrow> Inl e
           | Inr datas \<Rightarrow>
               need datas ''Data da Compra''
                (need datas ''Vendedor''
                  (need datas Preco
                    (need datas ''Categoria do Produto''
                      (need datas ''Local da compra''
                        (need datas ''lat''
                          (need datas ''lon''
                            (Inr (aggregate argsort qtd_vendedores
                               (apply_seller_filter seller_filter (rows datas)))))))))))))"

section \<open>Example data\<close>

text \<open>
  Four sales by three sellers in two states: Ana and Bia have the same total, and the
  two sales in SP carry different coordinates.
\<close>

definition sale1 :: sale where
  "sale1 = \<lparr>data_da_compra = \<lparr>year = 2021, month = 1, day = 15\<rparr>, preco = 10,
     categoria_do_produto = ''livros'', vendedor = ''Ana'', local_da_compra = ''SP'',
     lat = - 23, lon = - 46\<rparr>"

definition sale2 :: sale where
  "sale2 = \<lparr>data_da_compra = \<lparr>year = 2021, month = 3, day = 2\<rparr>, preco = 5 / 2,
     categoria_do_produto = ''brinquedos'', vendedor = ''Bia'', local_da_compra = ''RJ'',
     lat = - 22, lon = - 43\<rparr>"

definition sale3 :: sale where
  "sale3 = \<lparr>data_da_compra = \<lparr>year = 2021, month = 3, day = 9\<rparr>, preco = 15 / 2,
     categoria_do_produto = ''livros'', vendedor = ''Bia'', local_da_compra = ''SP'',
     lat = - 24, lon = - 47\<rparr>"

definition sale4 :: sale where
  "sale4 = \<lparr>data_da_compra = \<lparr>year = 2021, month = 3, day = 20\<rparr>, preco = 4,
     categoria_do_produto = ''livros'', vendedor = ''Caio'', local_da_compra = ''RJ'',
     lat = - 22, lon = - 43\<rparr>"

definition example_datas :: "sale list" where
  "example_datas = [sale1, sale2, sale3, sale4]"

text \<open>Responses of the remote end: a server error, and a status 300 that carries the data.\<close>

definition response_500 :: response where
  "response_500 = \<lparr>status_code = 500, reason = ''Internal Server Error'',
     url = ''https://labdados.com/produtos?regiao=&ano=0'', from_dict_json = Inr DataFrame\<rparr>"

definition response_300 :: response where
  "response_300 = \<lparr>status_code = 300, reason = ''Multiple Choices'',
     url = ''https://labdados.com/produtos?regiao=&ano=0'',
     from_dict_json = Inr \<lparr>columns = schema, rows = example_datas\<rparr>\<rparr>"

definition example_query :: params where
  "example_query = \<lparr>regiao = '''', ano = 0\<rparr>"

section \<open>Rounding to binary64\<close>

lemma rhe_cases: "round_half_even x = \<lfloor>x\<rfloor> \<or> round_half_even x = \<lfloor>x\<rfloor> + 1"
  by (simp add: round_half_even_def Let_def)

lemma rhe_of_int: "round_half_even (of_int n) = n"
  by (simp add: round_half_even_def)

lemma rhe_ge_int: "of_int n \<le> x \<Longrightarrow> n \<le> round_half_even x"
  using rhe_cases [of x] le_floor_iff [of n x] by linarith

lemma rhe_le_int:
  assumes "x \<le> of_int n"
  shows "round_half_even x \<le> n"
proof (cases "x = of_int n")
  case True
  then show ?thesis by (simp add: rhe_of_int)
next
  case False
  with assms have "x < of_int n" by simp
  then have "\<lfloor>x\<rfloor> < n" by (simp add: floor_less_iff)
  then show ?thesis using rhe_cases [of x] by linarith
qed

lemma two_powi_pos: "0 < (2::rat) powi e"
  by (simp add: zero_less_power_int)

lemma two_powi_Suc: "(2::rat) powi (e + 1) = 2 * 2 powi e"
  by (simp add: power_int_add)

lemma bitlen_powi_bounds:
  assumes "0 < p"
  shows "(2::rat) powi (bitlen p - 1) \<le> of_int p" and "of_int p < (2::rat) powi bitlen p"
proof -
  have b: "1 \<le> bitlen p"
    using assms bitlen_eq_zero_iff [of p] bitlen_nonneg [of p] by linarith
  from bitlen_bounds [OF assms]
  have l: "2 ^ nat (bitlen p - 1) \<le> p" and u: "p < 2 ^ nat (bitlen p)" by simp_all
  have "(of_int (2 ^ nat (bitlen p - 1)) :: rat) \<le> of_int p"
    using l by (simp only: of_int_le_iff)
  then show "(2::rat) powi (bitlen p - 1) \<le> of_int p"
    using b by (simp add: power_int_nonneg_exp)
  have "(of_int p :: rat) < of_int (2 ^ nat (bitlen p))"
    using u by (simp only: of_int_less_iff)
  then show "of_int p < (2::rat) powi bitlen p"
    using b by (simp add: power_int_nonneg_exp)
qed

lemma expo_bounds:
  assumes "0 < x"
  shows "2 powi expo x \<le> x" and "x < 2 powi (expo x + 1)"
proof -
  obtain p q where pq: "quotient_of x = (p, q)" by force
  have q: "0 < q" using quotient_of_denom_pos [OF pq] .
  have x: "x = of_int p / of_int q" using quotient_of_div [OF pq] .
  have p: "0 < p" using assms q x by (simp add: zero_less_divide_iff)
  define d where "d = bitlen p - bitlen q"
  have e: "expo x = (if 2 powi d \<le> x then d else d - 1)"
    by (simp add: expo_def pq d_def)
  note P = bitlen_powi_bounds [OF p] and Q = bitlen_powi_bounds [OF q]
  have qpos: "(0::rat) < of_int q" using q by simp
  have "x * of_int q = of_int p" using x qpos by simp
  have up: "x < 2 powi (d + 1)"
  proof -
    have "of_int p < 2 powi (d + 1) * (2::rat) powi (bitlen q - 1)"
      using P(2) by (simp add: d_def flip: power_int_add)
    also have "\<dots> \<le> 2 powi (d + 1) * of_int q"
      using Q(1) by (simp add: two_powi_pos)
    finally show ?thesis using qpos x by (simp add: pos_divide_less_eq)
  qed
  have lo: "2 powi (d - 1) \<le> x"
  proof -
    have "2 powi (d - 1) * of_int q \<le> 2 powi (d - 1) * (2::rat) powi bitlen q"
      using Q(2) by (simp add: two_powi_pos)
    also have "\<dots> = 2 powi (bitlen p - 1)"
      by (simp add: d_def flip: power_int_add)
    also have "\<dots> \<le> of_int p" using P(1) .
    finally show ?thesis using qpos x by (simp add: pos_le_divide_eq)
  qed
  show "2 powi expo x \<le> x" using e lo by simp
  show "x < 2 powi (expo x + 1)" using e up by (auto simp: not_le)
qed

lemma expo_unique:
  assumes "2 powi e \<le> x" "x < 2 powi (e + 1)"
  shows "expo x = e"
proof -
  have x: "0 < x" using assms(1) two_powi_pos [of e] by linarith
  note B = expo_bounds [OF x]
  have "(2::rat) powi e < 2 powi (expo x + 1)" using assms(1) B(2) by linarith
  then have 1: "e < expo x + 1"
    by (metis not_less power_int_increasing one_le_numeral)
  have "(2::rat) powi expo x < 2 powi (e + 1)" using assms(2) B(1) by linarith
  then have 2: "expo x < e + 1"
    by (metis not_less power_int_increasing one_le_numeral)
  show ?thesis using 1 2 by simp
qed

lemma expo_mono:
  assumes "0 < x" "x \<le> y"
  shows "expo x \<le> expo y"
proof -
  have y: "0 < y" using assms by simp
  have "(2::rat) powi expo x < 2 powi (expo y + 1)"
    using expo_bounds(1) [OF assms(1)] expo_bounds(2) [OF y] assms(2) by linarith
  then have "expo x < expo y + 1"
    by (metis not_less power_int_increasing one_le_numeral)
  then show ?thesis by simp
qed

lemma ulp_pos: "0 < ulp x"
  by (simp add: ulp_def two_powi_pos)

lemma ulp_eq: "0 < x \<Longrightarrow> ulp x = 2 powi (expo x - 52)"
  by (simp add: ulp_def)

lemma to_double_pos_eq:
  "0 < x \<Longrightarrow> to_double x = of_int (round_half_even (x / ulp x)) * ulp x"
  by (simp add: to_double_def)

lemma ulp_scale:
  assumes "0 < x"
  shows "2 ^ 52 * ulp x = 2 powi expo x" and "2 ^ 53 * ulp x = 2 powi (expo x + 1)"
proof -
  show "2 ^ 52 * ulp x = 2 powi expo x"
    using power_int_add [of "2::rat" 52 "expo x - 52"] by (simp add: ulp_eq [OF assms])
  show "2 ^ 53 * ulp x = 2 powi (expo x + 1)"
    using power_int_add [of "2::rat" 53 "expo x - 52"]
    by (simp add: ulp_eq [OF assms] add.commute)
qed

lemma scaled_bounds:
  assumes "0 < x"
  shows "2 ^ 52 \<le> x / ulp x" and "x / ulp x < 2 ^ 53"
proof -
  have "2 ^ 52 * ulp x = 2 powi expo x" using ulp_scale(1) [OF assms] .
  then show "2 ^ 52 \<le> x / ulp x"
    using expo_bounds(1) [OF assms] ulp_pos [of x] by (simp add: pos_le_divide_eq)
  have "2 ^ 53 * ulp x = 2 powi (expo x + 1)" using ulp_scale(2) [OF assms] .
  then show "x / ulp x < 2 ^ 53"
    using expo_bounds(2) [OF assms] ulp_pos [of x] by (simp add: pos_divide_less_eq)
qed

lemma to_double_bounds:
  assumes "0 < x"
  shows "2 powi expo x \<le> to_double x" and "to_double x \<le> 2 powi (expo x + 1)"
proof -
  let ?m = "round_half_even (x / ulp x)"
  have "(of_int (2 ^ 52) :: rat) \<le> x / ulp x" using scaled_bounds(1) [OF assms] by simp
  then have "2 ^ 52 \<le> ?m" by (rule rhe_ge_int)
  then have "(of_int (2 ^ 52) :: rat) \<le> of_int ?m" by (simp only: of_int_le_iff)
  then have "2 ^ 52 * ulp x \<le> of_int ?m * ulp x"
    using ulp_pos [of x] by simp
  moreover have "2 ^ 52 * ulp x = 2 powi expo x" using ulp_scale(1) [OF assms] .
  ultimately show "2 powi expo x \<le> to_double x"
    by (simp add: to_double_pos_eq [OF assms])
  have "x / ulp x \<le> (of_int (2 ^ 53) :: rat)" using scaled_bounds(2) [OF assms] by simp
  then have "?m \<le> 2 ^ 53" by (rule rhe_le_int)
  then have "(of_int ?m :: rat) \<le> of_int (2 ^ 53)" by (simp only: of_int_le_iff)
  then have "of_int ?m * ulp x \<le> 2 ^ 53 * ulp x"
    using ulp_pos [of x] by simp
  moreover have "2 ^ 53 * ulp x = 2 powi (expo x + 1)" using ulp_scale(2) [OF assms] .
  ultimately show "to_double x \<le> 2 powi (expo x + 1)"
    by (simp add: to_double_pos_eq [OF assms])
qed

lemma is_double_grid:
  assumes "is_double c" "0 < c"
  shows "c / ulp c = of_int (round_half_even (c / ulp c))"
proof -
  have "c = of_int (round_half_even (c / ulp c)) * ulp c"
    using assms by (simp add: is_double_def to_double_pos_eq)
  then show ?thesis using ulp_pos [of c]
    by (metis nonzero_mult_div_cancel_right less_irrefl)
qed


lemma to_double_le:
  assumes c: "is_double c" and y: "0 < y" "y \<le> c"
  shows "to_double y \<le> c"
proof -
  have cpos: "0 < c" using y by simp
  have le: "expo y \<le> expo c" using expo_mono [OF y] .
  show ?thesis
  proof (cases "expo c = expo y")
    case True
    then have u: "ulp y = ulp c" using y(1) cpos by (simp add: ulp_eq)
    let ?m = "round_half_even (c / ulp c)"
    have g: "c / ulp c = of_int ?m" using is_double_grid [OF c cpos] .
    have "y / ulp c \<le> of_int ?m"
      using y(2) ulp_pos [of c] g by (metis divide_right_mono less_imp_le)
    then have "round_half_even (y / ulp c) \<le> ?m" by (rule rhe_le_int)
    then have "(of_int (round_half_even (y / ulp c)) :: rat) \<le> of_int ?m"
      by (simp only: of_int_le_iff)
    then have "of_int (round_half_even (y / ulp c)) * ulp c \<le> of_int ?m * ulp c"
      using ulp_pos [of c] by simp
    moreover have "of_int ?m * ulp c = c"
      using g ulp_pos [of c] by (simp add: field_simps)
    ultimately show ?thesis by (simp add: to_double_pos_eq [OF y(1)] u)
  next
    case False
    with le have "expo y + 1 \<le> expo c" by simp
    then have "(2::rat) powi (expo y + 1) \<le> 2 powi expo c"
      by (intro power_int_increasing) simp_all
    then show ?thesis
      using expo_bounds(1) [OF cpos] to_double_bounds(2) [OF y(1)] by linarith
  qed
qed



lemma is_double_below_1000: "is_double (1000 - 1 / 2 ^ 43)"
  by code_simp

lemma expo_less:
  assumes "0 < x" "x < 2 powi k"
  shows "expo x < k"
proof -
  have "(2::rat) powi expo x < 2 powi k" using expo_bounds(1) [OF assms(1)] assms(2) by linarith
  then show ?thesis by (metis not_less power_int_increasing one_le_numeral)
qed

lemma double_below_million:
  assumes "is_double r" "0 < r" "r < 1000000"
  shows "r \<le> 1000000 - 1 / 2 ^ 33"
proof -
  have "r < 2 powi 20" using assms(3) by simp
  then have e: "expo r < 20" using expo_less [OF assms(2)] by blast
  show ?thesis
  proof (cases "expo r = 19")
    case True
    then have u: "ulp r = 1 / 2 ^ 33"
      using assms(2) by (simp add: ulp_eq power_int_minus_divide)
    define m where "m = round_half_even (r / ulp r)"
    have "r / ulp r = of_int m" using is_double_grid [OF assms(1,2)] by (simp add: m_def)
    then have g: "r * 2 ^ 33 = of_int m" by (simp add: u)
    have "r * 2 ^ 33 < 1000000 * 2 ^ 33" using assms(3) by simp
    then have "(of_int m :: rat) < of_int (1000000 * 2 ^ 33)" using g by simp
    then have "m < 1000000 * 2 ^ 33" by (simp only: of_int_less_iff)
    then have "m \<le> 1000000 * 2 ^ 33 - 1" by simp
    then have "(of_int m :: rat) \<le> of_int (1000000 * 2 ^ 33 - 1)" by (simp only: of_int_le_iff)
    then have "r * 2 ^ 33 \<le> 1000000 * 2 ^ 33 - 1" using g by simp
    then show ?thesis by (simp add: field_simps)
  next
    case False
    with e have "expo r + 1 \<le> 19" by simp
    then have "(2::rat) powi (expo r + 1) \<le> 2 powi 19"
      by (intro power_int_increasing) simp_all
    then have "r < 2 powi 19" using expo_bounds(2) [OF assms(2)] by linarith
    then show ?thesis by simp
  qed
qed

lemma to_double_below_1000:
  assumes "0 < y" "y \<le> 1000 - 1 / 2 ^ 43"
  shows "to_double y < 1000"
proof -
  have "to_double y \<le> 1000 - 1 / 2 ^ 43"
    using is_double_below_1000 assms by (rule to_double_le)
  then show ?thesis by simp
qed

lemma thousandth_below_1000:
  assumes "representable v" "1000 \<le> val v" "val v < 1000000"
  shows "val (truediv v 1000) < 1000"
proof -
  have "val v / 1000 \<le> 1000 - 1 / 2 ^ 43"
  proof (cases v)
    case (PyInt i)
    with assms(3) have "i < 1000000" by simp
    then have "i \<le> 999999" by simp
    then have "(of_int i :: rat) \<le> of_int 999999" by (simp only: of_int_le_iff)
    then show ?thesis using PyInt by simp
  next
    case (PyFloat r)
    with assms have "is_double r" "0 < r" "r < 1000000" by simp_all
    then have "r \<le> 1000000 - 1 / 2 ^ 33" by (rule double_below_million)
    then show ?thesis using PyFloat by simp
  qed
  moreover have "0 < val v / 1000" using assms(2) by simp
  ultimately show ?thesis by (simp add: truediv_def to_double_below_1000)
qed



lemma format_number_cases:
  "format_number v p =
     (if val v < 1000 then p @ '' '' @ format_2f v @ '' ''
      else if val (truediv v 1000) < 1000 then p @ '' '' @ format_2f (truediv v 1000) @ '' mil''
      else p @ '' '' @ format_2f (truediv (truediv v 1000) 1000) @ '' million'')"
  by (simp add: format_number_def)

lemma format_number_mil:
  assumes "representable v" "1000 \<le> val v" "val v < 1000000"
  shows "format_number v p = p @ '' '' @ format_2f (truediv v 1000) @ '' mil''"
  using thousandth_below_1000 [OF assms] assms(2) by (simp add: format_number_cases)




section \<open>Sorting\<close>

lemma sort_values_mset:
  assumes "descending_argsort argsort"
  shows "mset (sort_values argsort by df) = mset df"
proof -
  have "mset (argsort (map by df)) = mset [0..<length df]"
    using assms by (simp add: descending_argsort_def)
  then have "image_mset (\<lambda>i. df ! i) (mset (argsort (map by df)))
      = image_mset (\<lambda>i. df ! i) (mset [0..<length df])" by simp
  then have "mset (map (\<lambda>i. df ! i) (argsort (map by df))) = mset (map (\<lambda>i. df ! i) [0..<length df])"
    by simp
  then show ?thesis by (simp add: sort_values_def map_nth)
qed

lemma sort_values_set:
  "descending_argsort argsort \<Longrightarrow> set (sort_values argsort by df) = set df"
  using sort_values_mset [of argsort "by" df] by (rule mset_eq_setD)

lemma sort_values_length:
  "descending_argsort argsort \<Longrightarrow> length (sort_values argsort by df) = length df"
  using sort_values_mset [of argsort "by" df] by (rule mset_eq_length)



lemma descending_stable_argsort: "descending_argsort stable_argsort"
proof -
  have "sorted_wrt (\<ge>) (map (\<lambda>i. column ! i) (stable_argsort column))" for column :: "rat list"
  proof -
    have "sorted (map (\<lambda>i. - (column ! i)) (stable_argsort column))"
      by (simp add: stable_argsort_def)
    then show ?thesis
      by (simp add: sorted_wrt_map)
  qed
  then show ?thesis by (simp add: descending_argsort_def stable_argsort_def)
qed


section \<open>Grouping\<close>




lemma groupby_keys: "map fst (groupby key agg df) = sort (remdups (map key df))"
  by (simp add: groupby_def comp_def)

lemma groupby_distinct: "distinct (map fst (groupby key agg df))"
  by (simp add: groupby_keys)

lemma groupby_sorted: "sorted (map fst (groupby key agg df))"
  by (simp add: groupby_keys)

lemma groupby_set:
  "set (groupby key agg df) = (\<lambda>k. (k, agg (filter (\<lambda>r. key r = k) df))) ` key ` set df"
  by (simp add: groupby_def)


section \<open>Months\<close>


section \<open>First rows and joins\<close>

lemma drop_duplicates_seen_keys:
  "set (map key (drop_duplicates_seen key seen df)) = key ` set df - set seen"
  by (induction df arbitrary: seen) auto

lemma drop_duplicates_seen_distinct:
  "distinct (map key (drop_duplicates_seen key seen df))"
  by (induction df arbitrary: seen) (auto simp: drop_duplicates_seen_keys simp del: set_map)

lemma drop_duplicates_seen_first:
  "r \<in> set (drop_duplicates_seen key seen df) \<Longrightarrow> find (\<lambda>s. key s = key r) df = Some r"
proof (induction df arbitrary: seen)
  case Nil
  then show ?case by simp
next
  case (Cons x df)
  show ?case
  proof (cases "key x \<in> set seen")
    case True
    with Cons.prems have r: "r \<in> set (drop_duplicates_seen key seen df)" by simp
    then have "key r \<in> set (map key (drop_duplicates_seen key seen df))" by simp
    then have "key r \<notin> set seen" by (simp only: drop_duplicates_seen_keys) simp
    with True have "key x \<noteq> key r" by auto
    then show ?thesis using Cons.IH [OF r] by simp
  next
    case False
    show ?thesis
    proof (cases "r = x")
      case True
      then show ?thesis by simp
    next
      case neq: False
      with False Cons.prems have r: "r \<in> set (drop_duplicates_seen key (key x # seen) df)"
        by simp
      then have "key r \<in> set (map key (drop_duplicates_seen key (key x # seen) df))" by simp
      then have "key r \<notin> set (key x # seen)" by (simp only: drop_duplicates_seen_keys) simp
      then have "key x \<noteq> key r" by auto
      then show ?thesis using Cons.IH [OF r] by simp
    qed
  qed
qed

lemma drop_duplicates_keys: "set (map key (drop_duplicates key df)) = key ` set df"
  using drop_duplicates_seen_keys [of key "[]" df] by (simp add: drop_duplicates_def)

lemma drop_duplicates_distinct: "distinct (map key (drop_duplicates key df))"
  by (simp add: drop_duplicates_def drop_duplicates_seen_distinct)

lemma drop_duplicates_first:
  "r \<in> set (drop_duplicates key df) \<Longrightarrow> find (\<lambda>s. key s = key r) df = Some r"
  by (simp add: drop_duplicates_def drop_duplicates_seen_first)

lemma filter_eq_distinct:
  "distinct ks \<Longrightarrow> filter (\<lambda>k. k = c) ks = (if c \<in> set ks then [c] else [])"
  by (induction ks) auto

lemma merge_groupby:
  assumes "\<forall>l \<in> set left. left_on l \<in> key ` set df"
  shows "merge left_on left (groupby key agg df)
    = map (\<lambda>l. (l, agg (filter (\<lambda>r. key r = left_on l) df))) left"
proof -
  have "map (\<lambda>(k, v). (l, v)) (filter (\<lambda>(k, v). k = left_on l) (groupby key agg df))
      = [(l, agg (filter (\<lambda>r. key r = left_on l) df))]" if "l \<in> set left" for l
  proof -
    let ?ks = "sort (remdups (map key df))"
    have "filter (\<lambda>(k, v). k = left_on l) (groupby key agg df)
        = map (\<lambda>k. (k, agg (filter (\<lambda>r. key r = k) df))) (filter (\<lambda>k. k = left_on l) ?ks)"
      by (simp add: groupby_def filter_map comp_def)
    also have "filter (\<lambda>k. k = left_on l) ?ks = [left_on l]"
      using assms that by (simp add: filter_eq_distinct)
    finally show ?thesis by simp
  qed
  then have "map (\<lambda>r. map (\<lambda>(k, v). (r, v))
        (filter (\<lambda>(k, v). k = left_on r) (groupby key agg df))) left
      = map (\<lambda>l. [(l, agg (filter (\<lambda>r. key r = left_on l) df))]) left"
    by (simp cong: map_cong)
  then have "merge left_on left (groupby key agg df)
      = concat (map (\<lambda>l. [(l, agg (filter (\<lambda>r. key r = left_on l) df))]) left)"
    by (simp only: merge_def)
  then show ?thesis by simp
qed

text \<open>The two tables by state, before they are sorted.\<close>

lemma merge_states:
  "merge fst (map (\<lambda>r. (local_da_compra r, lat r, lon r)) (drop_duplicates local_da_compra df))
      (groupby local_da_compra agg df)
    = map (\<lambda>r. ((local_da_compra r, lat r, lon r),
          agg (filter (\<lambda>s. local_da_compra s = local_da_compra r) df)))
        (drop_duplicates local_da_compra df)"
proof -
  have "\<forall>l \<in> set (map (\<lambda>r. (local_da_compra r, lat r, lon r))
      (drop_duplicates local_da_compra df)). fst l \<in> local_da_compra ` set df"
    using drop_duplicates_keys [of local_da_compra df] by auto
  then show ?thesis by (simp add: merge_groupby comp_def)
qed

section \<open>Claims about the formatter\<close>

text \<open>
  C2, as stated: \<^verbatim>\<open>format_number(1500) == " 1.50 thousand"\<close>. The unit in the source's
  list is \<^verbatim>\<open>"mil"\<close>, so the string differs.
\<close>

theorem format_number_thousand_counterexample:
  "format_number (PyInt 1500) '''' \<noteq> '' 1.50 thousand''"
  by code_simp

text \<open>
  C2, amended: \<^verbatim>\<open>format_number(500) == " 500.00 "\<close>,
  \<^verbatim>\<open>format_number(1500) == " 1.50 mil"\<close>, \<^verbatim>\<open>format_number(2_500_000) == " 2.50 million"\<close>,
  \<^verbatim>\<open>format_number(1500, "R$") == "R$ 1.50 mil"\<close>; and for every value with
  1000 \<le> value < 1,000,000 the value is divided once by 1000 and the unit \<^verbatim>\<open>"mil"\<close> is
  appended.
\<close>

theorem format_number_reference_vectors:
  "format_number (PyInt 500) '''' = '' 500.00 '' \<and>
   format_number (PyInt 1500) '''' = '' 1.50 mil'' \<and>
   format_number (PyInt 2500000) '''' = '' 2.50 million'' \<and>
   format_number (PyInt 1500) ''R$'' = ''R$ 1.50 mil'' \<and>
   (representable v \<and> 1000 \<le> val v \<and> val v < 1000000 \<longrightarrow>
      format_number v p = p @ '' '' @ format_2f (truediv v 1000) @ '' mil'')"
proof -
  have "format_number (PyInt 500) '''' = '' 500.00 ''" by code_simp
  moreover have "format_number (PyInt 1500) '''' = '' 1.50 mil''" by code_simp
  moreover have "format_number (PyInt 2500000) '''' = '' 2.50 million''" by code_simp
  moreover have "format_number (PyInt 1500) ''R$'' = ''R$ 1.50 mil''" by code_simp
  ultimately show ?thesis using format_number_mil [of v p] by blast
qed

theorem format_number_reference_vectors_witness:
  "representable (PyFloat (2469 / 2)) \<and> 1000 \<le> val (PyFloat (2469 / 2)) \<and>
   val (PyFloat (2469 / 2)) < 1000000 \<and>
   format_number (PyFloat (2469 / 2)) ''R$'' = ''R$ 1.23 mil''"
proof -
  have r: "representable (PyFloat (2469 / 2))" by code_simp
  have f: "format_2f (truediv (PyFloat (2469 / 2)) 1000) = ''1.23''" by code_simp
  show ?thesis
    using format_number_reference_vectors [of "PyFloat (2469 / 2)" "''R$''"] r f by simp
qed




section \<open>Claims about the filter stage\<close>




section \<open>Claims about the fetcher\<close>

text \<open>
  C5, as stated: on every response whose status is not 2xx, \<^verbatim>\<open>fetch_data\<close> reports a
  failure and returns an empty table. \<^verbatim>\<open>raise_for_status\<close> raises for 4xx and 5xx only:
  a response with status 300 is parsed and returned like a 200, and nothing is reported.
\<close>

theorem fetch_data_status_300_counterexample:
  "\<not> (200 \<le> status_code response_300 \<and> status_code response_300 < 300) \<and>
   fetch_data (\<lambda>url params. Inr response_300) example_query
     = ([], Inr \<lparr>columns = schema, rows = example_datas\<rparr>) \<and>
   rows \<lparr>columns = schema, rows = example_datas\<rparr> \<noteq> []"
  by (simp add: fetch_data_def raise_for_status_def response_300_def example_datas_def)

text \<open>
  C5, amended: for every parameter set, when \<^verbatim>\<open>requests.get\<close> raises a
  \<^verbatim>\<open>RequestException\<close> (a network failure) or the response has a 4xx or 5xx status,
  \<^verbatim>\<open>fetch_data\<close> raises nothing to its caller: it gives one message to \<^verbatim>\<open>st.error\<close> and
  returns \<^verbatim>\<open>pd.DataFrame()\<close>, a table with no record.
\<close>

theorem fetch_data_fail_soft:
  "(requests_get URL params = Inl (RequestException e) \<longrightarrow>
      fetch_data requests_get params = ([''Error fetching data: '' @ e], Inr DataFrame)) \<and>
   (requests_get URL params = Inr response \<and>
      400 \<le> status_code response \<and> status_code response < 600 \<longrightarrow>
      (\<exists>e. raise_for_status response = Inl (RequestException e) \<and>
         fetch_data requests_get params = ([''Error fetching data: '' @ e], Inr DataFrame))) \<and>
   rows DataFrame = []"
  by (auto simp: fetch_data_def raise_for_status_def DataFrame_def)

theorem fetch_data_fail_soft_witness:
  "400 \<le> status_code response_500 \<and> status_code response_500 < 600 \<and>
   fetch_data (\<lambda>url params. Inr response_500) example_query
     = ([''Error fetching data: 500 Server Error: Internal Server Error for url: https://labdados.com/produtos?regiao=&ano=0''],
        Inr DataFrame) \<and>
   fetch_data (\<lambda>url params. Inl (RequestException ''Connection refused'')) example_query
     = ([''Error fetching data: Connection refused''], Inr DataFrame)"
proof -
  have s: "400 \<le> status_code response_500 \<and> status_code response_500 < 600"
    by (simp add: response_500_def)
  have m: "raise_for_status response_500 = Inl (RequestException
      ''500 Server Error: Internal Server Error for url: https://labdados.com/produtos?regiao=&ano=0'')"
    by code_simp
  show ?thesis
    using fetch_data_fail_soft [of "\<lambda>url params. Inr response_500" example_query
        "''Connection refused''" response_500]
      fetch_data_fail_soft [of "\<lambda>url params. Inl (RequestException ''Connection refused'')"
        example_query "''Connection refused''" response_500]
      s m
    by simp
qed

section \<open>The script on a failed fetch\<close>

text \<open>
  C1: when the fetch fails, \<^verbatim>\<open>fetch_data\<close> returns \<^verbatim>\<open>pd.DataFrame()\<close>, which has no
  column, and the next statement of the script, line 77, reads
  \<^verbatim>\<open>datas["Data da Compra"]\<close>: the script stops there with a \<^verbatim>\<open>KeyError\<close>, whatever
  the sidebar holds, and computes no table and no metric.
\<close>

theorem dashboard_http_500_key_error:
  "dashboard argsort (\<lambda>url params. Inr response_500) query_string seller_filter qtd_vendedores
     = ([''Error fetching data: 500 Server Error: Internal Server Error for url: https://labdados.com/produtos?regiao=&ano=0''],
        Inl (KeyError ''Data da Compra''))"
proof -
  have m: "raise_for_status response_500 = Inl (RequestException
      ''500 Server Error: Internal Server Error for url: https://labdados.com/produtos?regiao=&ano=0'')"
    by code_simp
  show ?thesis
    by (simp add: dashboard_def fetch_data_def m need_def DataFrame_def)
qed

section \<open>Claims about the monthly buckets\<close>






section \<open>Claims about the rollups\<close>






section \<open>Claims about the geographic rollup\<close>

lemma states_table_mset:
  assumes "descending_argsort argsort"
  shows "mset (sort_values argsort col
      (merge fst
        (map (\<lambda>r. (local_da_compra r, lat r, lon r)) (drop_duplicates local_da_compra df))
        (groupby local_da_compra agg df)))
    = mset (map (\<lambda>r. ((local_da_compra r, lat r, lon r),
          agg (filter (\<lambda>s. local_da_compra s = local_da_compra r) df)))
        (drop_duplicates local_da_compra df))"
  by (simp only: merge_states sort_values_mset [OF assms])

lemma states_table_keys:
  assumes "descending_argsort argsort"
  shows "mset (map (fst \<circ> fst) (sort_values argsort col
      (merge fst
        (map (\<lambda>r. (local_da_compra r, lat r, lon r)) (drop_duplicates local_da_compra df))
        (groupby local_da_compra agg df))))
    = mset (map local_da_compra (drop_duplicates local_da_compra df))"
proof -
  let ?T = "sort_values argsort col
      (merge fst
        (map (\<lambda>r. (local_da_compra r, lat r, lon r)) (drop_duplicates local_da_compra df))
        (groupby local_da_compra agg df))"
  let ?G = "map (\<lambda>r. ((local_da_compra r, lat r, lon r),
          agg (filter (\<lambda>s. local_da_compra s = local_da_compra r) df)))
        (drop_duplicates local_da_compra df)"
  have "mset ?T = mset ?G" using assms by (rule states_table_mset)
  then have "image_mset (fst \<circ> fst) (mset ?T) = image_mset (fst \<circ> fst) (mset ?G)"
    by (rule arg_cong)
  then have "mset (map (fst \<circ> fst) ?T) = mset (map (fst \<circ> fst) ?G)"
    by (simp only: mset_map)
  also have "map (fst \<circ> fst) ?G = map local_da_compra (drop_duplicates local_da_compra df)"
    by simp
  finally show ?thesis .
qed

lemma states_table_row:
  assumes "descending_argsort argsort"
    and "((k, la, lo), a) \<in> set (sort_values argsort col
      (merge fst
        (map (\<lambda>r. (local_da_compra r, lat r, lon r)) (drop_duplicates local_da_compra df))
        (groupby local_da_compra agg df)))"
  shows "a = agg (filter (\<lambda>r. local_da_compra r = k) df) \<and>
      (\<exists>r. find (\<lambda>r. local_da_compra r = k) df = Some r \<and> la = lat r \<and> lo = lon r)"
proof -
  have "((k, la, lo), a) \<in> set (map (\<lambda>r. ((local_da_compra r, lat r, lon r),
          agg (filter (\<lambda>s. local_da_compra s = local_da_compra r) df)))
        (drop_duplicates local_da_compra df))"
    using assms(2) mset_eq_setD [OF states_table_mset [OF assms(1), of col df agg]]
    by (simp only:)
  then have "((k, la, lo), a) \<in> (\<lambda>r. ((local_da_compra r, lat r, lon r),
        agg (filter (\<lambda>s. local_da_compra s = local_da_compra r) df)))
      ` set (drop_duplicates local_da_compra df)"
    by (simp only: set_map)
  then obtain r where x: "((k, la, lo), a) = ((local_da_compra r, lat r, lon r),
        agg (filter (\<lambda>s. local_da_compra s = local_da_compra r) df))"
      and r: "r \<in> set (drop_duplicates local_da_compra df)"
    by (rule imageE)
  have "find (\<lambda>s. local_da_compra s = local_da_compra r) df = Some r"
    using r by (rule drop_duplicates_first)
  then show ?thesis using x by simp
qed

lemma states_table_names:
  assumes "descending_argsort argsort"
  shows "distinct (map (fst \<circ> fst) (sort_values argsort col
      (merge fst
        (map (\<lambda>r. (local_da_compra r, lat r, lon r)) (drop_duplicates local_da_compra df))
        (groupby local_da_compra agg df))))"
    and "set (map (fst \<circ> fst) (sort_values argsort col
      (merge fst
        (map (\<lambda>r. (local_da_compra r, lat r, lon r)) (drop_duplicates local_da_compra df))
        (groupby local_da_compra agg df))))
      = local_da_compra ` set df"
proof -
  note m = states_table_keys [OF assms, of col df agg]
  have "distinct (map local_da_compra (drop_duplicates local_da_compra df))"
    by (rule drop_duplicates_distinct)
  then show "distinct (map (fst \<circ> fst) (sort_values argsort col
      (merge fst
        (map (\<lambda>r. (local_da_compra r, lat r, lon r)) (drop_duplicates local_da_compra df))
        (groupby local_da_compra agg df))))"
    using mset_eq_imp_distinct_iff [OF m] by blast
  have "set (map local_da_compra (drop_duplicates local_da_compra df)) = local_da_compra ` set df"
    by (rule drop_duplicates_keys)
  then show "set (map (fst \<circ> fst) (sort_values argsort col
      (merge fst
        (map (\<lambda>r. (local_da_compra r, lat r, lon r)) (drop_duplicates local_da_compra df))
        (groupby local_da_compra agg df))))
      = local_da_compra ` set df"
    using mset_eq_setD [OF m] by (simp only:)
qed

text \<open>
  C9: the geographic rollup has one row per location name, with the sum of the prices
  (\<^verbatim>\<open>income_of_the_states\<close>) or the number (\<^verbatim>\<open>vendas_estados\<close>) of the records of that
  location, and with the latitude and longitude of the first record of the table that has
  this location name: when a name comes with several coordinate pairs, only the first
  one seen is in the result.
\<close>

theorem geographic_rollup:
  assumes "descending_argsort argsort"
  shows "distinct (map (fst \<circ> fst) (income_of_the_states argsort datas)) \<and>
    set (map (fst \<circ> fst) (income_of_the_states argsort datas)) = local_da_compra ` set datas \<and>
    (\<forall>((k, la, lo), p) \<in> set (income_of_the_states argsort datas).
       p = sum_preco (filter (\<lambda>r. local_da_compra r = k) datas) \<and>
       (\<exists>r. find (\<lambda>r. local_da_compra r = k) datas = Some r \<and> la = lat r \<and> lo = lon r)) \<and>
    distinct (map (fst \<circ> fst) (vendas_estados argsort datas)) \<and>
    set (map (fst \<circ> fst) (vendas_estados argsort datas)) = local_da_compra ` set datas \<and>
    (\<forall>((k, la, lo), n) \<in> set (vendas_estados argsort datas).
       n = count_preco (filter (\<lambda>r. local_da_compra r = k) datas) \<and>
       (\<exists>r. find (\<lambda>r. local_da_compra r = k) datas = Some r \<and> la = lat r \<and> lo = lon r))"
proof -
  have 1: "distinct (map (fst \<circ> fst) (income_of_the_states argsort datas))"
    unfolding income_of_the_states_def using assms by (rule states_table_names(1))
  have 2: "set (map (fst \<circ> fst) (income_of_the_states argsort datas)) = local_da_compra ` set datas"
    unfolding income_of_the_states_def using assms by (rule states_table_names(2))
  have 3: "\<forall>((k, la, lo), p) \<in> set (income_of_the_states argsort datas).
       p = sum_preco (filter (\<lambda>r. local_da_compra r = k) datas) \<and>
       (\<exists>r. find (\<lambda>r. local_da_compra r = k) datas = Some r \<and> la = lat r \<and> lo = lon r)"
    using states_table_row [OF assms, where col = snd and df = datas and agg = sum_preco]
    unfolding income_of_the_states_def by blast
  have 4: "distinct (map (fst \<circ> fst) (vendas_estados argsort datas))"
    unfolding vendas_estados_def using assms by (rule states_table_names(1))
  have 5: "set (map (fst \<circ> fst) (vendas_estados argsort datas)) = local_da_compra ` set datas"
    unfolding vendas_estados_def using assms by (rule states_table_names(2))
  have 6: "\<forall>((k, la, lo), n) \<in> set (vendas_estados argsort datas).
       n = count_preco (filter (\<lambda>r. local_da_compra r = k) datas) \<and>
       (\<exists>r. find (\<lambda>r. local_da_compra r = k) datas = Some r \<and> la = lat r \<and> lo = lon r)"
    using states_table_row [OF assms, where col = "\<lambda>row. of_nat (snd row)" and df = datas
        and agg = count_preco]
    unfolding vendas_estados_def by blast
  from 1 2 3 4 5 6 show ?thesis by (intro conjI)
qed

theorem geographic_rollup_witness:
  "descending_argsort stable_argsort \<and>
   income_of_the_states stable_argsort example_datas
     = [((''SP'', - 23, - 46), 35 / 2), ((''RJ'', - 22, - 43), 13 / 2)] \<and>
   vendas_estados stable_argsort example_datas
     = [((''SP'', - 23, - 46), 2), ((''RJ'', - 22, - 43), 2)] \<and>
   find (\<lambda>r. local_da_compra r = ''SP'') example_datas = Some sale1 \<and>
   set (map (fst \<circ> fst) (income_of_the_states stable_argsort example_datas))
     = local_da_compra ` set example_datas"
proof -
  have i: "income_of_the_states stable_argsort example_datas
     = [((''SP'', - 23, - 46), 35 / 2), ((''RJ'', - 22, - 43), 13 / 2)]"
    by code_simp
  have v: "vendas_estados stable_argsort example_datas
     = [((''SP'', - 23, - 46), 2), ((''RJ'', - 22, - 43), 2)]"
    by code_simp
  have f: "find (\<lambda>r. local_da_compra r = ''SP'') example_datas = Some sale1"
    by (simp add: example_datas_def sale1_def)
  have s: "set (map (fst \<circ> fst) (income_of_the_states stable_argsort example_datas))
     = local_da_compra ` set example_datas"
    using geographic_rollup [OF descending_stable_argsort, of example_datas] by (elim conjE)
  show ?thesis using descending_stable_argsort i v f s by (intro conjI)
qed

section \<open>Claims about the seller rollup\<close>







end
